theory Spec2Isabelle
  imports Complex_Main
begin

section \<open>Python values used by bot/utils/time.py\<close>

text \<open>
  The module is Python. Integers are unbounded (\<open>int\<close>), strings are character lists,
  and every operation that can raise is given an error branch. \<open>ValueError\<close> is what
  both parsers raise on text they cannot read (the specification calls it ParseError).
\<close>

datatype py_error = IndexError | TypeError | ValueError

subsection \<open>Formatting an integer: \<open>str(value)\<close> inside an f-string\<close>

definition digit_char :: "nat \<Rightarrow> char" where
  "digit_char n = ''0123456789'' ! (n mod 10)"

function str_nat :: "nat \<Rightarrow> string" where
  "str_nat n = (if n < 10 then [digit_char n] else str_nat (n div 10) @ [digit_char n])"
  by pat_completeness auto
termination
  by (relation "measure (\<lambda>n. n)") auto

definition str_int :: "int \<Rightarrow> string" where
  "str_int i = (if i < 0 then CHR ''-'' # str_nat (nat (- i)) else str_nat (nat i))"




subsection \<open>List indexing, item assignment and deletion\<close>

text \<open>
  A negative index counts from the end; an index outside the list raises IndexError.
\<close>

definition py_index :: "'a list \<Rightarrow> int \<Rightarrow> py_error + nat" where
  "py_index xs i =
     (if i < 0
      then (if - i \<le> int (length xs) then Inr (nat (int (length xs) + i)) else Inl IndexError)
      else (if i < int (length xs) then Inr (nat i) else Inl IndexError))"

definition py_getitem :: "'a list \<Rightarrow> int \<Rightarrow> py_error + 'a" where
  "py_getitem xs i = (case py_index xs i of Inl e \<Rightarrow> Inl e | Inr k \<Rightarrow> Inr (xs ! k))"

definition py_setitem :: "'a list \<Rightarrow> int \<Rightarrow> 'a \<Rightarrow> py_error + 'a list" where
  "py_setitem xs i x = (case py_index xs i of Inl e \<Rightarrow> Inl e | Inr k \<Rightarrow> Inr (xs[k := x]))"

definition py_delitem :: "'a list \<Rightarrow> int \<Rightarrow> py_error + 'a list" where
  "py_delitem xs i =
     (case py_index xs i of Inl e \<Rightarrow> Inl e | Inr k \<Rightarrow> Inr (take k xs @ drop (Suc k) xs))"

subsection \<open>\<open>sep.join(strings)\<close>\<close>

fun join :: "string \<Rightarrow> string list \<Rightarrow> string" where
  "join sep [] = []"
| "join sep [s] = s"
| "join sep (s # t # ss) = s @ sep @ join sep (t # ss)"

section \<open>Humanising a relativedelta\<close>

text \<open>
  Of dateutil's relativedelta the module reads the six relative components only.
\<close>

record relativedelta =
  years :: int
  months :: int
  days :: int
  hours :: int
  minutes :: int
  seconds :: int

text \<open>
  \<open>_stringify_time_unit(value, unit)\<close>. The slice \<open>unit[:-1]\<close> drops the last
  character and is the empty string on the empty string, which is \<open>butlast\<close>.
\<close>

definition stringify_time_unit :: "int \<Rightarrow> string \<Rightarrow> string" where
  "stringify_time_unit val unit_name =
     (if val = 1 then str_int val @ '' '' @ butlast unit_name
      else if val = 0 then ''less than a '' @ butlast unit_name
      else str_int val @ '' '' @ unit_name)"

text \<open>The tuple \<open>units\<close> built at the start of \<open>humanize_delta\<close>.\<close>

definition units :: "relativedelta \<Rightarrow> (string \<times> int) list" where
  "units delta =
     [(''years'', years delta), (''months'', months delta), (''days'', days delta),
      (''hours'', hours delta), (''minutes'', minutes delta), (''seconds'', seconds delta)]"

text \<open>
  The \<open>for unit, value in units\<close> loop, with its two variables \<open>time_strings\<close> and
  \<open>unit_count\<close> as accumulators. The \<open>break\<close> is tested after the unit has been
  handled, so it returns the list as it stands then.
\<close>

fun collect_units ::
  "string \<Rightarrow> int \<Rightarrow> (string \<times> int) list \<Rightarrow> string list \<Rightarrow> int \<Rightarrow> string list" where
  "collect_units precision max_units [] time_strings unit_count = time_strings"
| "collect_units precision max_units ((unit_name, val) # rest) time_strings unit_count =
     (let time_strings' =
            (if val \<noteq> 0 then time_strings @ [stringify_time_unit val unit_name]
             else time_strings);
          unit_count' = (if val \<noteq> 0 then unit_count + 1 else unit_count)
      in if unit_name = precision \<or> unit_count' \<ge> max_units then time_strings'
         else collect_units precision max_units rest time_strings' unit_count')"

text \<open>
  The block under \<open>if len(time_strings) > 1\<close>: the last entry is overwritten with the
  last two joined by \<open>and\<close>, then the entry before it is deleted.
\<close>

definition add_and :: "string list \<Rightarrow> py_error + string list" where
  "add_and time_strings =
     (if length time_strings > 1 then
        (case py_getitem time_strings (- 2) of
           Inl e \<Rightarrow> Inl e
         | Inr a \<Rightarrow>
             (case py_getitem time_strings (- 1) of
                Inl e \<Rightarrow> Inl e
              | Inr b \<Rightarrow>
                  (case py_setitem time_strings (- 1) (a @ '' and '' @ b) of
                     Inl e \<Rightarrow> Inl e
                   | Inr time_strings1 \<Rightarrow> py_delitem time_strings1 (- 2))))
      else Inr time_strings)"

definition time_strings_of :: "relativedelta \<Rightarrow> string \<Rightarrow> int \<Rightarrow> string list" where
  "time_strings_of delta precision max_units =
     collect_units precision max_units (units delta) [] 0"

definition humanize_delta :: "relativedelta \<Rightarrow> string \<Rightarrow> int \<Rightarrow> py_error + string" where
  "humanize_delta delta precision max_units =
     (case add_and (time_strings_of delta precision max_units) of
        Inl e \<Rightarrow> Inl e
      | Inr time_strings \<Rightarrow>
          Inr (if time_strings = [] then stringify_time_unit 0 precision
               else join '', '' time_strings))"

section \<open>The loop of humanize_delta, as the specification words it\<close>

text \<open>
  These definitions follow the specification's description of the algorithm and are
  compared with the loop above. Unit \<open>i\<close> of the list stops the iteration when its
  name is the precision, or when the number of non-zero units among units \<open>0..i\<close>
  (the counter after unit \<open>i\<close> has been handled, started at \<open>c\<close>) has reached
  \<open>max_units\<close>. The units visited are those up to and including the first that stops.
\<close>

definition nonzero_units :: "(string \<times> int) list \<Rightarrow> (string \<times> int) list" where
  "nonzero_units us = filter (\<lambda>(u, v). v \<noteq> 0) us"

definition emitted_after :: "(string \<times> int) list \<Rightarrow> nat \<Rightarrow> int" where
  "emitted_after us i = int (length (nonzero_units (take (Suc i) us)))"

definition stops_at :: "int \<Rightarrow> string \<Rightarrow> int \<Rightarrow> (string \<times> int) list \<Rightarrow> nat \<Rightarrow> bool" where
  "stops_at c precision max_units us i =
     (fst (us ! i) = precision \<or> c + emitted_after us i \<ge> max_units)"

definition units_visited ::
  "int \<Rightarrow> string \<Rightarrow> int \<Rightarrow> (string \<times> int) list \<Rightarrow> (string \<times> int) list" where
  "units_visited c precision max_units us =
     take (Suc (length (takeWhile (\<lambda>i. \<not> stops_at c precision max_units us i)
                                  [0..<length us]))) us"

definition render_units :: "(string \<times> int) list \<Rightarrow> string list" where
  "render_units us = map (\<lambda>(u, v). stringify_time_unit v u) us"

definition spec_time_strings :: "string \<Rightarrow> int \<Rightarrow> (string \<times> int) list \<Rightarrow> string list" where
  "spec_time_strings precision max_units us =
     render_units (nonzero_units (units_visited 0 precision max_units us))"

text \<open>The units down to and including the one named by the precision (all, if none is).\<close>

definition upto_precision :: "string \<Rightarrow> (string \<times> int) list \<Rightarrow> (string \<times> int) list" where
  "upto_precision precision us =
     take (Suc (length (takeWhile (\<lambda>(u, v). u \<noteq> precision) us))) us"

definition unit_names :: "string list" where
  "unit_names = [''years'', ''months'', ''days'', ''hours'', ''minutes'', ''seconds'']"

text \<open>
  Python's \<open>pat in s\<close> on strings, used to say that a rendered unit holds no
  \<open>and\<close> separator.
\<close>

fun starts_with :: "string \<Rightarrow> string \<Rightarrow> bool" where
  "starts_with [] s = True"
| "starts_with (p # ps) [] = False"
| "starts_with (p # ps) (c # cs) = (p = c \<and> starts_with ps cs)"

fun contains :: "string \<Rightarrow> string \<Rightarrow> bool" where
  "contains pat [] = (pat = [])"
| "contains pat (c # cs) = (starts_with pat (c # cs) \<or> contains pat cs)"

section \<open>Timestamps\<close>

text \<open>
  A \<open>datetime.datetime\<close> value: its calendar and clock fields, and the UTC offset in
  seconds of the tzinfo attached to it (\<open>None\<close> for a naive value, which is what
  \<open>datetime.datetime.utcnow()\<close> returns).
\<close>

record datetime =
  year :: int
  month :: int
  day :: int
  hour :: int
  minute :: int
  second :: int
  microsecond :: int
  tzinfo :: "int option"

text \<open>The values the \<open>datetime\<close> constructor accepts.\<close>

definition is_leap :: "int \<Rightarrow> bool" where
  "is_leap y = (y mod 4 = 0 \<and> (y mod 400 = 0 \<or> y mod 100 \<noteq> 0))"

definition days_in_month :: "int \<Rightarrow> int \<Rightarrow> int" where
  "days_in_month y m =
     (if m = 2 \<and> is_leap y then 29
      else [31, 28, 31, 30, 31, 30, 31, 31, 30, 31, 30, 31] ! nat (m - 1))"

definition datetime_in_range :: "datetime \<Rightarrow> bool" where
  "datetime_in_range dt =
     (1 \<le> year dt \<and> year dt \<le> 9999 \<and> 1 \<le> month dt \<and> month dt \<le> 12 \<and>
      1 \<le> day dt \<and> day dt \<le> days_in_month (year dt) (month dt) \<and>
      0 \<le> hour dt \<and> hour dt \<le> 23 \<and> 0 \<le> minute dt \<and> minute dt \<le> 59 \<and>
      0 \<le> second dt \<and> second dt \<le> 59 \<and> 0 \<le> microsecond dt \<and> microsecond dt \<le> 999999)"

subsection \<open>Subtracting two datetimes\<close>

text \<open>
  \<open>a - b\<close> is a timedelta, kept here as its total number of microseconds. The day
  number is the proleptic Gregorian ordinal. Two naive values are subtracted field by
  field, two aware ones after correcting by their offsets, and a naive value mixed with
  an aware one raises TypeError.
\<close>

definition days_before_year :: "int \<Rightarrow> int" where
  "days_before_year y = (y - 1) * 365 + (y - 1) div 4 - (y - 1) div 100 + (y - 1) div 400"

definition days_before_month :: "int \<Rightarrow> int \<Rightarrow> int" where
  "days_before_month y m = sum_list (map (days_in_month y) [1..m - 1])"

definition toordinal :: "datetime \<Rightarrow> int" where
  "toordinal dt = days_before_year (year dt) + days_before_month (year dt) (month dt) + day dt"

definition naive_difference :: "datetime \<Rightarrow> datetime \<Rightarrow> int" where
  "naive_difference a b =
     ((toordinal a - toordinal b) * 86400 +
      ((second a + minute a * 60 + hour a * 3600) - (second b + minute b * 60 + hour b * 3600)))
       * 1000000 + (microsecond a - microsecond b)"

definition datetime_sub :: "datetime \<Rightarrow> datetime \<Rightarrow> py_error + int" where
  "datetime_sub a b =
     (case (tzinfo a, tzinfo b) of
        (None, None) \<Rightarrow> Inr (naive_difference a b)
      | (Some off_a, Some off_b) \<Rightarrow> Inr (naive_difference a b + (off_b - off_a) * 1000000)
      | _ \<Rightarrow> Inl TypeError)"

subsection \<open>Floats: \<open>timedelta.total_seconds()\<close>\<close>

text \<open>
  A Python float is kept as the rational number it denotes. \<open>total_seconds\<close> divides
  the whole number of microseconds by \<open>10**6\<close> with Python's true division of
  integers, whose result is the double nearest to the quotient, ties going to the even
  significand. For a positive \<open>n\<close>, \<open>binary_exponent n b\<close> is the \<open>e\<close> with
  \<open>2^e \<le> n / b < 2^(e+1)\<close>; the quotient is scaled by \<open>2^(52 - e)\<close>, rounded to
  the nearest integer (a significand of 53 bits), and scaled back. Overflow and
  subnormal results are left out: a timedelta has at most \<open>10^9\<close> days, and a non-zero
  one at least a microsecond, so its quotient is always in the normal range.
\<close>

function bit_length :: "int \<Rightarrow> nat" where
  "bit_length n = (if n \<le> 0 then 0 else Suc (bit_length (n div 2)))"
  by pat_completeness auto
termination
  by (relation "measure nat") auto

definition pow2 :: "int \<Rightarrow> rat" where
  "pow2 e = (if 0 \<le> e then 2 ^ nat e else 1 / 2 ^ nat (- e))"

definition round_div :: "int \<Rightarrow> int \<Rightarrow> int" where
  "round_div q d =
     (let f = q div d; r = q mod d
      in if 2 * r < d then f else if d < 2 * r then f + 1 else if even f then f else f + 1)"

definition shift_ratio :: "int \<Rightarrow> int \<Rightarrow> int \<Rightarrow> int \<times> int" where
  "shift_ratio n b s = (if 0 \<le> s then (n * 2 ^ nat s, b) else (n, b * 2 ^ nat (- s)))"

definition binary_exponent :: "int \<Rightarrow> int \<Rightarrow> int" where
  "binary_exponent n b =
     (let e0 = int (bit_length n) - int (bit_length b)
      in case shift_ratio n b (- e0) of (q, d) \<Rightarrow> if d \<le> q then e0 else e0 - 1)"

definition true_divide :: "int \<Rightarrow> int \<Rightarrow> rat" where
  "true_divide a b =
     (if a = 0 then 0
      else (let e = binary_exponent \<bar>a\<bar> b
            in case shift_ratio \<bar>a\<bar> b (52 - e) of
                 (q, d) \<Rightarrow> of_int (sgn a * round_div q d) * pow2 (e - 52)))"

definition total_seconds :: "int \<Rightarrow> rat" where
  "total_seconds delta = true_divide delta 1000000"

subsection \<open>wait_until\<close>

text \<open>
  The coroutine reads the wall clock and may await \<open>asyncio.sleep\<close>. Both effects are
  kept in an explicit world: the reading that the n-th call of \<open>utcnow\<close> returns, the
  number of calls made so far, and the arguments of the sleeps awaited so far, in order.
\<close>

record world =
  clock :: "nat \<Rightarrow> datetime"
  reads :: nat
  sleeps :: "rat list"

definition utcnow :: "world \<Rightarrow> datetime \<times> world" where
  "utcnow w = ((clock w (reads w))\<lparr>tzinfo := None\<rparr>, w\<lparr>reads := Suc (reads w)\<rparr>)"

definition asyncio_sleep :: "rat \<Rightarrow> world \<Rightarrow> world" where
  "asyncio_sleep delay w = w\<lparr>sleeps := sleeps w @ [delay]\<rparr>"

definition wait_until :: "datetime \<Rightarrow> world \<Rightarrow> (py_error + unit) \<times> world" where
  "wait_until time w =
     (case utcnow w of (now, w1) \<Rightarrow>
        (case datetime_sub time now of
           Inl e \<Rightarrow> (Inl e, w1)
         | Inr delay \<Rightarrow>
             (let delay_seconds = total_seconds delay
              in if delay_seconds > 1 then (Inr (), asyncio_sleep delay_seconds w1)
                 else (Inr (), w1))))"

text \<open>A clock that always shows the same reading, for concrete runs.\<close>

definition frozen_clock :: "datetime \<Rightarrow> nat \<Rightarrow> datetime" where
  "frozen_clock t n = t"

subsection \<open>Formatting and parsing\<close>

text \<open>
  \<open>strftime\<close> hands the format to the C library of the platform. For the numeric
  directives the module uses, glibc prints the month, day, hour, minute and second
  padded with zeros to two digits, and the year as a plain decimal number: a year
  below 1000 comes out with fewer than four digits. The module formats with
  \<open>INFRACTION_FORMAT\<close> only, which has no other directive; one that is not numeric is
  left as it stands.
\<close>

definition zero_pad :: "nat \<Rightarrow> int \<Rightarrow> string" where
  "zero_pad width i = replicate (width - length (str_int i)) (CHR ''0'') @ str_int i"

definition strftime_directive :: "datetime \<Rightarrow> char \<Rightarrow> string" where
  "strftime_directive dt c =
     (if c = CHR ''Y'' then str_int (year dt)
      else if c = CHR ''m'' then zero_pad 2 (month dt)
      else if c = CHR ''d'' then zero_pad 2 (day dt)
      else if c = CHR ''H'' then zero_pad 2 (hour dt)
      else if c = CHR ''M'' then zero_pad 2 (minute dt)
      else if c = CHR ''S'' then zero_pad 2 (second dt)
      else [CHR ''%'', c])"

fun strftime :: "datetime \<Rightarrow> string \<Rightarrow> string" where
  "strftime dt [] = []"
| "strftime dt [c] = [c]"
| "strftime dt (c # d # rest) =
     (if c = CHR ''%'' then strftime_directive dt d @ strftime dt rest
      else c # strftime dt (d # rest))"

definition RFC1123_FORMAT :: string where
  "RFC1123_FORMAT = ''%a, %d %b %Y %H:%M:%S GMT''"

definition INFRACTION_FORMAT :: string where
  "INFRACTION_FORMAT = ''%Y-%m-%d %H:%M''"

text \<open>
  The two parsers, \<open>datetime.datetime.strptime\<close> and \<open>dateutil.parser.isoparse\<close>,
  are library code outside the module. Each is a parameter of the function that calls
  it: a function from the text to the datetime read, or to the error raised.
\<close>

definition parse_rfc1123 ::
  "(string \<Rightarrow> string \<Rightarrow> py_error + datetime) \<Rightarrow> string \<Rightarrow> py_error + datetime" where
  "parse_rfc1123 strptime time_str =
     (case strptime time_str RFC1123_FORMAT of
        Inl e \<Rightarrow> Inl e
      | Inr dt \<Rightarrow> Inr (dt\<lparr>tzinfo := Some 0\<rparr>))"

definition format_infraction ::
  "(string \<Rightarrow> py_error + datetime) \<Rightarrow> string \<Rightarrow> py_error + string" where
  "format_infraction isoparse timestamp =
     (case isoparse timestamp of
        Inl e \<Rightarrow> Inl e
      | Inr dt \<Rightarrow> Inr (strftime dt INFRACTION_FORMAT))"

definition is_digit :: "char \<Rightarrow> bool" where
  "is_digit c = (c \<in> set ''0123456789'')"

text \<open>
  The fixed pattern \<open>YYYY-MM-DD HH:MM\<close> of the specification: sixteen characters,
  digits but for the two hyphens, the space and the colon.
\<close>

definition infraction_pattern :: "string \<Rightarrow> bool" where
  "infraction_pattern s =
     (length s = 16 \<and> list_all is_digit (take 4 s) \<and> s ! 4 = CHR ''-'' \<and>
      list_all is_digit (take 2 (drop 5 s)) \<and> s ! 7 = CHR ''-'' \<and>
      list_all is_digit (take 2 (drop 8 s)) \<and> s ! 10 = CHR '' '' \<and>
      list_all is_digit (take 2 (drop 11 s)) \<and> s ! 13 = CHR '':'' \<and>
      list_all is_digit (take 2 (drop 14 s)))"

text \<open>
  A parser given by a table of three ISO-8601 texts and what they denote; every other
  text is rejected. It stands for \<open>isoparse\<close> where a concrete run is evaluated.
\<close>

definition iso_table :: "string \<Rightarrow> py_error + datetime" where
  "iso_table s =
     (if s = ''2021-03-05T14:30:00+00:00''
      then Inr \<lparr>year = 2021, month = 3, day = 5, hour = 14, minute = 30, second = 0,
                microsecond = 0, tzinfo = Some 0\<rparr>
      else if s = ''2021-03-05T14:30:00+05:00''
      then Inr \<lparr>year = 2021, month = 3, day = 5, hour = 14, minute = 30, second = 0,
                microsecond = 0, tzinfo = Some 18000\<rparr>
      else if s = ''0999-01-02T03:04:05''
      then Inr \<lparr>year = 999, month = 1, day = 2, hour = 3, minute = 4, second = 5,
                microsecond = 0, tzinfo = None\<rparr>
      else Inl ValueError)"

section \<open>Printing integers\<close>

declare str_nat.simps [simp del]

lemma lt10_cases:
  "(k::nat) < 10 \<Longrightarrow>
     k = 0 \<or> k = 1 \<or> k = 2 \<or> k = 3 \<or> k = 4 \<or> k = 5 \<or> k = 6 \<or> k = 7 \<or> k = 8 \<or> k = 9"
  by arith


lemma digit_char_not_minus: "digit_char n \<noteq> CHR ''-''"
proof -
  have "''0123456789'' ! k \<noteq> CHR ''-''" if "k < 10" for k :: nat
    using lt10_cases [OF that] by (elim disjE) simp_all
  then show ?thesis
    by (simp add: digit_char_def)
qed

lemma str_nat_small: "n < 10 \<Longrightarrow> str_nat n = [digit_char n]"
  by (subst str_nat.simps) simp

lemma str_nat_large: "\<not> n < 10 \<Longrightarrow> str_nat n = str_nat (n div 10) @ [digit_char n]"
  by (subst str_nat.simps) simp



lemma str_nat_first: "\<exists>c cs. str_nat n = c # cs \<and> c \<noteq> CHR ''-''"
proof (induction n rule: str_nat.induct)
  case (1 n)
  show ?case
  proof (cases "n < 10")
    case True
    then show ?thesis
      by (simp add: str_nat_small digit_char_not_minus)
  next
    case False
    with 1 obtain c cs where "str_nat (n div 10) = c # cs" "c \<noteq> CHR ''-''"
      by blast
    then show ?thesis
      by (simp add: str_nat_large [OF False])
  qed
qed



lemma digit_char_not_space: "digit_char n \<noteq> CHR '' ''"
proof -
  have "''0123456789'' ! k \<noteq> CHR '' ''" if "k < 10" for k :: nat
    using lt10_cases [OF that] by (elim disjE) simp_all
  then show ?thesis
    by (simp add: digit_char_def)
qed

lemma str_nat_no_space: "count_list (str_nat n) (CHR '' '') = 0"
proof (induction n rule: str_nat.induct)
  case (1 n)
  show ?case
  proof (cases "n < 10")
    case True
    then show ?thesis
      by (simp add: str_nat_small digit_char_not_space)
  next
    case False
    with 1 have "count_list (str_nat (n div 10)) (CHR '' '') = 0" by simp
    then show ?thesis
      by (simp add: str_nat_large [OF False] digit_char_not_space)
  qed
qed

lemma str_int_no_space: "count_list (str_int i) (CHR '' '') = 0"
  by (simp add: str_int_def str_nat_no_space)

lemma str_nat_length: "0 < k \<Longrightarrow> n < 10 ^ k \<Longrightarrow> length (str_nat n) \<le> k"
proof (induction k arbitrary: n)
  case 0
  then show ?case by simp
next
  case (Suc k)
  show ?case
  proof (cases "n < 10")
    case True
    then show ?thesis by (simp add: str_nat_small)
  next
    case False
    with Suc.prems have k: "0 < k"
      by (cases k) auto
    from Suc.prems have "n div 10 < 10 ^ k"
      by (simp add: less_mult_imp_div_less mult.commute)
    with k have "length (str_nat (n div 10)) \<le> k"
      by (rule Suc.IH)
    then show ?thesis
      by (simp add: str_nat_large [OF False])
  qed
qed

lemma zero_pad_length:
  assumes "0 < k" "0 \<le> i" "i < 10 ^ k"
  shows "length (zero_pad k i) = k"
proof -
  from assms have "nat i < 10 ^ k"
    by (simp add: nat_less_iff)
  with assms(1) have "length (str_nat (nat i)) \<le> k"
    by (rule str_nat_length)
  with assms(2) show ?thesis
    by (simp add: zero_pad_def str_int_def)
qed

lemma digit_char_is_digit: "is_digit (digit_char n)"
proof -
  have "is_digit (''0123456789'' ! k)" if "k < 10" for k :: nat
    using lt10_cases [OF that] by (elim disjE) (simp_all add: is_digit_def)
  then show ?thesis by (simp add: digit_char_def)
qed

lemma str_nat_digits: "list_all is_digit (str_nat n)"
proof (induction n rule: str_nat.induct)
  case (1 n)
  show ?case
  proof (cases "n < 10")
    case True
    then show ?thesis by (simp add: str_nat_small digit_char_is_digit)
  next
    case False
    with 1 have "list_all is_digit (str_nat (n div 10))" by simp
    then show ?thesis
      by (simp add: str_nat_large [OF False] digit_char_is_digit)
  qed
qed

lemma zero_pad_digits: "0 \<le> i \<Longrightarrow> list_all is_digit (zero_pad k i)"
proof -
  assume "0 \<le> i"
  moreover have "list_all is_digit (replicate m (CHR ''0''))" for m
    by (simp add: list_all_iff is_digit_def)
  ultimately show ?thesis
    by (simp add: zero_pad_def str_int_def str_nat_digits)
qed

section \<open>stringify_time_unit\<close>



section \<open>The loop and the merge of humanize_delta\<close>

lemma emitted_after_Cons:
  "emitted_after ((u, v) # rest) (Suc i) = (if v \<noteq> 0 then 1 else 0) + emitted_after rest i"
  by (simp add: emitted_after_def nonzero_units_def)

lemma stops_at_Suc:
  "stops_at c p m ((u, v) # rest) (Suc i) = stops_at (c + (if v \<noteq> 0 then 1 else 0)) p m rest i"
  by (auto simp: stops_at_def emitted_after_Cons)

lemma stops_at_0:
  "stops_at c p m ((u, v) # rest) 0 = (u = p \<or> c + (if v \<noteq> 0 then 1 else 0) \<ge> m)"
  by (simp add: stops_at_def emitted_after_def nonzero_units_def)

lemma units_visited_Nil: "units_visited c p m [] = []"
  by (simp add: units_visited_def)

lemma units_visited_Cons:
  "units_visited c p m ((u, v) # rest) =
     (if u = p \<or> c + (if v \<noteq> 0 then 1 else 0) \<ge> m then [(u, v)]
      else (u, v) # units_visited (c + (if v \<noteq> 0 then 1 else 0)) p m rest)"
proof -
  have upt: "[0..<length ((u, v) # rest)] = 0 # map Suc [0..<length rest]"
    by (simp add: upt_conv_Cons map_Suc_upt del: upt_Suc)
  show ?thesis
    unfolding units_visited_def upt
    by (simp add: takeWhile_map comp_def stops_at_Suc stops_at_0 del: upt_Suc)
qed

lemma collect_units_visited:
  "collect_units p m us ts c = ts @ render_units (nonzero_units (units_visited c p m us))"
proof (induction us arbitrary: ts c)
  case Nil
  show ?case by (simp add: units_visited_Nil nonzero_units_def render_units_def)
next
  case (Cons x rest)
  obtain u v where x: "x = (u, v)" by (cases x)
  show ?case
    unfolding x
    by (simp add: units_visited_Cons Cons.IH nonzero_units_def render_units_def Let_def)
qed

lemma add_and_short: "length ts \<le> 1 \<Longrightarrow> add_and ts = Inr ts"
  by (simp add: add_and_def)

lemma add_and_long:
  assumes "2 \<le> length ts"
  shows "add_and ts = Inr (butlast (butlast ts) @ [last (butlast ts) @ '' and '' @ last ts])"
proof -
  obtain xs a b where ts: "ts = xs @ [a, b]"
  proof -
    from assms have "ts \<noteq> []" by auto
    then obtain ys b where 1: "ts = ys @ [b]" by (metis rev_exhaust)
    with assms have "ys \<noteq> []" by auto
    then obtain xs a where "ys = xs @ [a]" by (metis rev_exhaust)
    with 1 have "ts = xs @ [a, b]" by simp
    then show ?thesis by (rule that)
  qed
  have idx2: "py_index (xs @ [a, s]) (- 2) = Inr (length xs)" for s
    by (simp add: py_index_def)
  have idx1: "py_index (xs @ [a, s]) (- 1) = Inr (Suc (length xs))" for s
  proof -
    have "nat (1 + int (length xs)) = Suc (length xs)" by simp
    then show ?thesis by (simp add: py_index_def)
  qed
  have get2: "py_getitem ts (- 2) = Inr a"
    by (simp add: ts py_getitem_def idx2)
  have get1: "py_getitem ts (- 1) = Inr b"
    by (simp add: ts py_getitem_def idx1 nth_append)
  have set1: "py_setitem ts (- 1) s = Inr (xs @ [a, s])" for s
    by (simp add: ts py_setitem_def idx1 list_update_append)
  have del2: "py_delitem (xs @ [a, s]) (- 2) = Inr (xs @ [s])" for s
    by (simp add: py_delitem_def idx2)
  have "add_and ts = Inr (xs @ [a @ '' and '' @ b])"
    using assms by (simp add: add_and_def get2 get1 set1 del2)
  moreover have "butlast (butlast ts) = xs" "last (butlast ts) = a" "last ts = b"
    by (simp_all add: ts butlast_append)
  ultimately show ?thesis by simp
qed



lemma humanize_delta_none:
  "time_strings_of d p m = [] \<Longrightarrow> humanize_delta d p m = Inr (stringify_time_unit 0 p)"
  by (simp add: humanize_delta_def add_and_short)

lemma humanize_delta_one:
  "time_strings_of d p m = [s] \<Longrightarrow> humanize_delta d p m = Inr s"
  by (simp add: humanize_delta_def add_and_short)

lemma humanize_delta_many:
  assumes "2 \<le> length (time_strings_of d p m)"
  shows "humanize_delta d p m =
    Inr (join '', '' (butlast (butlast (time_strings_of d p m)) @
       [last (butlast (time_strings_of d p m)) @ '' and '' @ last (time_strings_of d p m)]))"
  by (simp add: humanize_delta_def add_and_long [OF assms])

lemma collect_units_length:
  "length (collect_units p m us ts c) \<le> length ts + nat (max 1 (m - c))"
proof (induction us arbitrary: ts c)
  case Nil
  show ?case by simp
next
  case (Cons x rest)
  obtain u v where x: "x = (u, v)" by (cases x)
  show ?case
  proof (cases "v = 0")
    case True
    then show ?thesis
      using Cons.IH [of ts c] by (auto simp: x max_def split: if_splits)
  next
    case False
    show ?thesis
    proof (cases "u = p \<or> m \<le> c + 1")
      case True
      with False show ?thesis by (auto simp: x)
    next
      case stop: False
      then have "length (collect_units p m rest (ts @ [stringify_time_unit v u]) (c + 1))
          \<le> length ts + 1 + nat (max 1 (m - (c + 1)))"
        using Cons.IH [of "ts @ [stringify_time_unit v u]" "c + 1"] by simp
      also have "\<dots> \<le> length ts + nat (max 1 (m - c))"
        using stop by auto
      finally show ?thesis
        using False stop by (simp add: x)
    qed
  qed
qed

lemma collect_units_zero_prefix:
  "list_all (\<lambda>(u, v). v = 0) (upto_precision p us) \<Longrightarrow> collect_units p m us ts c = ts"
proof (induction us arbitrary: c)
  case Nil
  show ?case by simp
next
  case (Cons x rest)
  obtain u v where x: "x = (u, v)" by (cases x)
  from Cons.prems have v: "v = 0"
    by (simp add: x upto_precision_def)
  show ?case
  proof (cases "u = p")
    case True
    with v show ?thesis by (simp add: x)
  next
    case False
    with Cons.prems have "list_all (\<lambda>(u, v). v = 0) (upto_precision p rest)"
      by (simp add: x upto_precision_def)
    then have "collect_units p m rest ts c = ts"
      by (rule Cons.IH)
    with v show ?thesis by (simp add: x)
  qed
qed



lemma starts_with_append: "starts_with pat s \<Longrightarrow> \<exists>post. s = pat @ post"
  by (induction pat s rule: starts_with.induct) auto

lemma contains_append: "contains pat s \<Longrightarrow> \<exists>pre post. s = pre @ pat @ post"
proof (induction s)
  case Nil
  then show ?case by simp
next
  case (Cons c cs)
  show ?case
  proof (cases "starts_with pat (c # cs)")
    case True
    then obtain post where "c # cs = pat @ post"
      using starts_with_append by blast
    then have "c # cs = [] @ pat @ post" by simp
    then show ?thesis by blast
  next
    case False
    with Cons.prems have "contains pat cs" by simp
    then obtain pre post where "cs = pre @ pat @ post"
      using Cons.IH by blast
    then have "c # cs = (c # pre) @ pat @ post" by simp
    then show ?thesis by blast
  qed
qed

lemma contains_and_spaces: "contains '' and '' s \<Longrightarrow> 2 \<le> count_list s (CHR '' '')"
proof -
  assume "contains '' and '' s"
  then obtain pre post where "s = pre @ '' and '' @ post"
    using contains_append by blast
  then show ?thesis by simp
qed

lemma stringify_one_space:
  "u \<in> set unit_names \<Longrightarrow> v \<noteq> 0 \<Longrightarrow> count_list (stringify_time_unit v u) (CHR '' '') = 1"
  by (auto simp: unit_names_def stringify_time_unit_def str_int_no_space)

lemma units_visited_subset: "set (units_visited c p m us) \<subseteq> set us"
  by (simp add: units_visited_def set_take_subset)

lemma time_strings_of_rendered:
  assumes "s \<in> set (time_strings_of delta precision max_units)"
  shows "\<exists>u v. u \<in> set unit_names \<and> v \<noteq> 0 \<and> s = stringify_time_unit v u"
proof -
  from assms obtain u v where uv: "(u, v) \<in> set (units_visited 0 precision max_units (units delta))"
      "v \<noteq> 0" "s = stringify_time_unit v u"
    by (auto simp: time_strings_of_def collect_units_visited render_units_def nonzero_units_def)
  from uv(1) have "(u, v) \<in> set (units delta)"
    using units_visited_subset by blast
  then have "u \<in> set unit_names"
    by (auto simp: units_def unit_names_def)
  with uv show ?thesis by blast
qed

lemma time_strings_of_no_and:
  assumes "s \<in> set (time_strings_of delta precision max_units)"
  shows "\<not> contains '' and '' s"
proof
  assume "contains '' and '' s"
  then have "2 \<le> count_list s (CHR '' '')"
    by (rule contains_and_spaces)
  moreover from assms obtain u v where "u \<in> set unit_names" "v \<noteq> 0" "s = stringify_time_unit v u"
    using time_strings_of_rendered by blast
  then have "count_list s (CHR '' '') = 1"
    by (simp add: stringify_one_space)
  ultimately show False by simp
qed

lemmas eval_defs = humanize_delta_def time_strings_of_def units_def add_and_def py_getitem_def
  py_setitem_def py_delitem_def py_index_def stringify_time_unit_def str_int_def
  str_nat.simps digit_char_def

section \<open>Claims about humanize_delta\<close>

text \<open>
  Claim C1. For every relativedelta, precision and max_units, \<open>humanize_delta\<close> goes
  through the six units in the order years, months, days, hours, minutes, seconds, each
  with the delta's component of that name. The strings it collects are exactly the
  renderings by \<open>_stringify_time_unit\<close> of the non-zero units among those visited, in
  order, where the units visited end with the first unit whose name is the precision or
  after which the count of collected strings has reached max_units. A unit of value zero
  is never rendered. For one day, two hours, no minutes and five seconds, with precision
  seconds and max_units 6, the result is "1 day, 2 hours and 5 seconds".
\<close>

theorem humanize_delta_loop:
  "map fst (units delta) = unit_names \<and>
   map snd (units delta) =
     [years delta, months delta, days delta, hours delta, minutes delta, seconds delta] \<and>
   time_strings_of delta precision max_units =
     spec_time_strings precision max_units (units delta) \<and>
   humanize_delta \<lparr>years = 0, months = 0, days = 1, hours = 2, minutes = 0, seconds = 5\<rparr>
     ''seconds'' 6 = Inr ''1 day, 2 hours and 5 seconds''"
proof -
  have order: "map fst (units delta) = unit_names"
    by (simp add: units_def unit_names_def)
  have vals: "map snd (units delta) =
     [years delta, months delta, days delta, hours delta, minutes delta, seconds delta]"
    by (simp add: units_def)
  have loop: "time_strings_of delta precision max_units =
     spec_time_strings precision max_units (units delta)"
    by (simp add: time_strings_of_def spec_time_strings_def collect_units_visited)
  have ex: "humanize_delta \<lparr>years = 0, months = 0, days = 1, hours = 2, minutes = 0, seconds = 5\<rparr>
     ''seconds'' 6 = Inr ''1 day, 2 hours and 5 seconds''"
    by (simp add: eval_defs)
  from order vals loop ex show ?thesis by blast
qed

text \<open>
  Claim C2. When the loop of \<open>humanize_delta\<close> has collected two or more strings, the
  last two are replaced by one entry, the two joined by " and ", so that the list is
  one shorter, and the result is that list joined with ", ". When it has collected
  exactly one string, nothing is merged, the result is that string, and it holds no
  " and ". With max_units 1 at most one string is collected; for one day, two hours
  and five seconds the result is then "1 day".
\<close>

theorem humanize_delta_merge:
  "(2 \<le> length (time_strings_of delta precision max_units) \<longrightarrow>
      add_and (time_strings_of delta precision max_units) =
        Inr (butlast (butlast (time_strings_of delta precision max_units)) @
             [last (butlast (time_strings_of delta precision max_units)) @ '' and '' @
              last (time_strings_of delta precision max_units)]) \<and>
      humanize_delta delta precision max_units =
        Inr (join '', ''
          (butlast (butlast (time_strings_of delta precision max_units)) @
             [last (butlast (time_strings_of delta precision max_units)) @ '' and '' @
              last (time_strings_of delta precision max_units)])) \<and>
      Suc (length (butlast (butlast (time_strings_of delta precision max_units)) @
             [last (butlast (time_strings_of delta precision max_units)) @ '' and '' @
              last (time_strings_of delta precision max_units)])) =
        length (time_strings_of delta precision max_units)) \<and>
   (\<forall>s. time_strings_of delta precision max_units = [s] \<longrightarrow>
      add_and [s] = Inr [s] \<and> humanize_delta delta precision max_units = Inr s \<and>
      \<not> contains '' and '' s) \<and>
   (max_units = 1 \<longrightarrow> length (time_strings_of delta precision max_units) \<le> 1) \<and>
   humanize_delta \<lparr>years = 0, months = 0, days = 1, hours = 2, minutes = 0, seconds = 5\<rparr>
     ''seconds'' 1 = Inr ''1 day''"
proof -
  let ?ts = "time_strings_of delta precision max_units"
  have many: "2 \<le> length ?ts \<longrightarrow>
      add_and ?ts = Inr (butlast (butlast ?ts) @ [last (butlast ?ts) @ '' and '' @ last ?ts]) \<and>
      humanize_delta delta precision max_units =
        Inr (join '', '' (butlast (butlast ?ts) @ [last (butlast ?ts) @ '' and '' @ last ?ts])) \<and>
      Suc (length (butlast (butlast ?ts) @ [last (butlast ?ts) @ '' and '' @ last ?ts])) =
        length ?ts"
    by (auto simp: add_and_long humanize_delta_many)
  have one: "\<forall>s. ?ts = [s] \<longrightarrow>
      add_and [s] = Inr [s] \<and> humanize_delta delta precision max_units = Inr s \<and>
      \<not> contains '' and '' s"
  proof (intro allI impI)
    fix s
    assume ts: "?ts = [s]"
    then have "s \<in> set ?ts" by simp
    then have "\<not> contains '' and '' s"
      by (rule time_strings_of_no_and)
    with ts show "add_and [s] = Inr [s] \<and> humanize_delta delta precision max_units = Inr s \<and>
      \<not> contains '' and '' s"
      by (simp add: add_and_short humanize_delta_one)
  qed
  have cap: "max_units = 1 \<longrightarrow> length ?ts \<le> 1"
    using collect_units_length [of precision 1 "units delta" "[]" 0]
    by (simp add: time_strings_of_def)
  have ex: "humanize_delta \<lparr>years = 0, months = 0, days = 1, hours = 2, minutes = 0, seconds = 5\<rparr>
     ''seconds'' 1 = Inr ''1 day''"
    by (simp add: eval_defs)
  from many one cap ex show ?thesis by blast
qed

theorem humanize_delta_merge_witness:
  "time_strings_of \<lparr>years = 0, months = 0, days = 1, hours = 2, minutes = 0, seconds = 5\<rparr>
     ''seconds'' 6 = [''1 day'', ''2 hours'', ''5 seconds''] \<and>
   add_and [''1 day'', ''2 hours'', ''5 seconds''] = Inr [''1 day'', ''2 hours and 5 seconds''] \<and>
   humanize_delta \<lparr>years = 0, months = 0, days = 1, hours = 2, minutes = 0, seconds = 5\<rparr>
     ''seconds'' 6 = Inr ''1 day, 2 hours and 5 seconds'' \<and>
   time_strings_of \<lparr>years = 0, months = 0, days = 1, hours = 2, minutes = 0, seconds = 5\<rparr>
     ''seconds'' 1 = [''1 day''] \<and>
   add_and [''1 day''] = Inr [''1 day''] \<and>
   humanize_delta \<lparr>years = 0, months = 0, days = 1, hours = 2, minutes = 0, seconds = 5\<rparr>
     ''seconds'' 1 = Inr ''1 day'' \<and>
   \<not> contains '' and '' ''1 day''"
proof -
  have ts6: "time_strings_of
      \<lparr>years = 0, months = 0, days = 1, hours = 2, minutes = 0, seconds = 5\<rparr> ''seconds'' 6 =
      [''1 day'', ''2 hours'', ''5 seconds'']"
    by (simp add: eval_defs)
  have ts1: "time_strings_of
      \<lparr>years = 0, months = 0, days = 1, hours = 2, minutes = 0, seconds = 5\<rparr> ''seconds'' 1 =
      [''1 day'']"
    by (simp add: eval_defs)
  show ?thesis
    using humanize_delta_merge
        [of "\<lparr>years = 0, months = 0, days = 1, hours = 2, minutes = 0, seconds = 5\<rparr>"
          "''seconds''" 6]
      humanize_delta_merge
        [of "\<lparr>years = 0, months = 0, days = 1, hours = 2, minutes = 0, seconds = 5\<rparr>"
          "''seconds''" 1]
    by (simp add: ts6 ts1)
qed

text \<open>
  Claim C4. When the six components of the delta are all zero, and more generally when
  every unit down to and including the one named by the precision is zero,
  \<open>humanize_delta\<close> collects nothing and returns \<open>_stringify_time_unit(0, precision)\<close>,
  whatever max_units is. For the zero delta and precision minutes this is
  "less than a minute".
\<close>

theorem humanize_delta_fallback:
  "(years delta = 0 \<and> months delta = 0 \<and> days delta = 0 \<and> hours delta = 0 \<and>
    minutes delta = 0 \<and> seconds delta = 0 \<longrightarrow>
      humanize_delta delta precision max_units = Inr (stringify_time_unit 0 precision)) \<and>
   (list_all (\<lambda>(u, v). v = 0) (upto_precision precision (units delta)) \<longrightarrow>
      time_strings_of delta precision max_units = [] \<and>
      humanize_delta delta precision max_units = Inr (stringify_time_unit 0 precision)) \<and>
   humanize_delta \<lparr>years = 0, months = 0, days = 0, hours = 0, minutes = 0, seconds = 0\<rparr>
     ''minutes'' 6 = Inr ''less than a minute''"
proof -
  have pre: "time_strings_of delta precision max_units = []"
    if "list_all (\<lambda>(u, v). v = 0) (upto_precision precision (units delta))"
    using collect_units_zero_prefix [OF that] by (simp add: time_strings_of_def)
  have zero: "list_all (\<lambda>(u, v). v = 0) (upto_precision precision (units delta))"
    if "years delta = 0 \<and> months delta = 0 \<and> days delta = 0 \<and> hours delta = 0 \<and>
        minutes delta = 0 \<and> seconds delta = 0"
    using that by (simp add: upto_precision_def units_def)
  have ex: "humanize_delta \<lparr>years = 0, months = 0, days = 0, hours = 0, minutes = 0, seconds = 0\<rparr>
     ''minutes'' 6 = Inr ''less than a minute''"
    by (simp add: eval_defs)
  from pre zero ex show ?thesis
    by (auto simp: humanize_delta_none)
qed

theorem humanize_delta_fallback_witness:
  "humanize_delta \<lparr>years = 0, months = 0, days = 0, hours = 0, minutes = 0, seconds = 0\<rparr>
     ''days'' 3 = Inr ''less than a day'' \<and>
   list_all (\<lambda>(u, v). v = 0)
     (upto_precision ''hours''
        (units \<lparr>years = 0, months = 0, days = 0, hours = 0, minutes = 5, seconds = 3\<rparr>)) \<and>
   time_strings_of \<lparr>years = 0, months = 0, days = 0, hours = 0, minutes = 5, seconds = 3\<rparr>
     ''hours'' 6 = [] \<and>
   humanize_delta \<lparr>years = 0, months = 0, days = 0, hours = 0, minutes = 5, seconds = 3\<rparr>
     ''hours'' 6 = Inr ''less than a hour''"
proof -
  have pre: "list_all (\<lambda>(u, v). v = 0)
     (upto_precision ''hours''
        (units \<lparr>years = 0, months = 0, days = 0, hours = 0, minutes = 5, seconds = 3\<rparr>))"
    by (simp add: upto_precision_def units_def)
  show ?thesis
    using pre
      humanize_delta_fallback
        [of "\<lparr>years = 0, months = 0, days = 0, hours = 0, minutes = 0, seconds = 0\<rparr>"
          "''days''" 3]
      humanize_delta_fallback
        [of "\<lparr>years = 0, months = 0, days = 0, hours = 0, minutes = 5, seconds = 3\<rparr>"
          "''hours''" 6]
    by (simp add: stringify_time_unit_def)
qed



text \<open>
  Claim C10. When max_units is zero or negative, \<open>humanize_delta\<close> leaves the loop
  after the first unit, and only after having handled it: if the years component is
  not zero the result is \<open>_stringify_time_unit(years, "years")\<close>, and otherwise it is
  the fallback \<open>_stringify_time_unit(0, precision)\<close>. So max_units 0 does not mean
  that no unit is rendered.
\<close>

theorem humanize_delta_nonpositive_max_units:
  "max_units \<le> 0 \<Longrightarrow>
     humanize_delta delta precision max_units =
       Inr (if years delta \<noteq> 0 then stringify_time_unit (years delta) ''years''
            else stringify_time_unit 0 precision)"
proof -
  assume m: "max_units \<le> 0"
  have ts: "time_strings_of delta precision max_units =
      (if years delta \<noteq> 0 then [stringify_time_unit (years delta) ''years''] else [])"
    using m by (simp add: time_strings_of_def units_def)
  show ?thesis
    by (simp add: ts humanize_delta_one humanize_delta_none)
qed

theorem humanize_delta_nonpositive_max_units_witness:
  "(0::int) \<le> 0 \<and>
   humanize_delta \<lparr>years = 3, months = 0, days = 1, hours = 2, minutes = 0, seconds = 5\<rparr>
     ''seconds'' 0 = Inr ''3 years'' \<and>
   (- 2::int) \<le> 0 \<and>
   humanize_delta \<lparr>years = 0, months = 0, days = 1, hours = 2, minutes = 0, seconds = 5\<rparr>
     ''seconds'' (- 2) = Inr ''less than a second''"
proof -
  have three: "str_int 3 = ''3''"
    by (simp add: str_int_def str_nat.simps digit_char_def)
  have a: "(0::int) \<le> 0" and b: "(- 2::int) \<le> 0"
    by simp_all
  show ?thesis
    using humanize_delta_nonpositive_max_units
        [OF a, of "\<lparr>years = 3, months = 0, days = 1, hours = 2, minutes = 0, seconds = 5\<rparr>"
          "''seconds''"]
      humanize_delta_nonpositive_max_units
        [OF b, of "\<lparr>years = 0, months = 0, days = 1, hours = 2, minutes = 0, seconds = 5\<rparr>"
          "''seconds''"]
    by (simp add: stringify_time_unit_def three)
qed

section \<open>Rounding to a double\<close>

declare bit_length.simps [simp del]

lemma pow2_powi: "pow2 e = 2 powi e"
  by (simp add: pow2_def power_int_def power_one_over inverse_eq_divide)

lemma bit_length_bounds: "0 < n \<Longrightarrow> n < 2 ^ bit_length n \<and> 2 ^ bit_length n \<le> 2 * n"
proof (induction n rule: bit_length.induct)
  case (1 n)
  have unfold: "bit_length n = Suc (bit_length (n div 2))"
    using "1.prems" by (subst bit_length.simps) simp
  show ?case
  proof (cases "0 < n div 2")
    case True
    with 1 have IH: "n div 2 < 2 ^ bit_length (n div 2)"
        "2 ^ bit_length (n div 2) \<le> 2 * (n div 2)"
      by simp_all
    have "n < 2 * (n div 2) + 2" by presburger
    moreover have "2 * (n div 2) \<le> n" by presburger
    ultimately show ?thesis
      using IH by (simp add: unfold)
  next
    case False
    with "1.prems" have n: "n = 1" by presburger
    have "bit_length (1 div 2) = 0"
      by (subst bit_length.simps) simp
    then show ?thesis
      using unfold by (simp add: n)
  qed
qed

lemma shift_ratio_value:
  assumes "0 < b" "shift_ratio n b s = (q, d)"
  shows "0 < d" and "(of_int q :: rat) = of_int n / of_int b * 2 powi s * of_int d"
proof -
  show "0 < d"
    using assms by (auto simp: shift_ratio_def split: if_splits)
  show "(of_int q :: rat) = of_int n / of_int b * 2 powi s * of_int d"
  proof (cases "0 \<le> s")
    case True
    with assms have "q = n * 2 ^ nat s" "d = b"
      by (simp_all add: shift_ratio_def)
    with assms(1) True show ?thesis
      by (simp add: power_int_def)
  next
    case False
    with assms have "q = n" "d = b * 2 ^ nat (- s)"
      by (simp_all add: shift_ratio_def)
    with assms(1) False show ?thesis
      by (simp add: power_int_def power_inverse field_simps)
  qed
qed


lemma bit_length_powi:
  assumes "0 < n"
  shows "(of_int n :: rat) < 2 powi int (bit_length n)"
    and "(2 :: rat) powi int (bit_length n) \<le> 2 * of_int n"
proof -
  from bit_length_bounds [OF assms]
  have a: "n < 2 ^ bit_length n" and b: "2 ^ bit_length n \<le> 2 * n"
    by simp_all
  from a have "(of_int n :: rat) < of_int (2 ^ bit_length n)"
    by (simp only: of_int_less_iff)
  then show "(of_int n :: rat) < 2 powi int (bit_length n)"
    by simp
  from b have "(of_int (2 ^ bit_length n) :: rat) \<le> of_int (2 * n)"
    by (simp only: of_int_le_iff)
  then show "(2 :: rat) powi int (bit_length n) \<le> 2 * of_int n"
    by simp
qed

lemma binary_exponent_bounds:
  assumes n: "0 < n" and b: "0 < b"
  shows "2 powi binary_exponent n b \<le> (of_int n / of_int b :: rat)"
    and "(of_int n / of_int b :: rat) < 2 powi (binary_exponent n b + 1)"
proof -
  define N where "N = int (bit_length n)"
  define B where "B = int (bit_length b)"
  define e0 where "e0 = N - B"
  define x :: rat where "x = of_int n / of_int b"
  have xb: "x * of_int b = of_int n"
    using b by (simp add: x_def)
  have x_pos: "0 < x"
    using n b by (simp add: x_def)
  have nN: "(of_int n :: rat) < 2 powi N" and Nn: "(2 :: rat) powi N \<le> 2 * of_int n"
    using bit_length_powi [OF n] by (simp_all add: N_def)
  have bB: "(of_int b :: rat) < 2 powi B" and Bb: "(2 :: rat) powi B \<le> 2 * of_int b"
    using bit_length_powi [OF b] by (simp_all add: B_def)
  have pB: "(0 :: rat) < 2 powi B"
    by simp
  have up: "2 powi (e0 + 1) = 2 * (2 :: rat) powi N / 2 powi B"
    by (simp add: e0_def power_int_diff power_int_add)
  have lo: "2 powi (e0 - 1) = (2 :: rat) powi N / (2 * 2 powi B)"
    by (simp add: e0_def power_int_diff)
  have upper: "x < 2 powi (e0 + 1)"
  proof -
    have "x * 2 powi B \<le> x * (2 * of_int b)"
      using Bb x_pos by (simp only: mult_le_cancel_left_pos)
    also have "\<dots> = 2 * of_int n"
      using xb by simp
    also have "\<dots> < 2 * 2 powi N"
      using nN by simp
    finally have "x * 2 powi B < 2 * 2 powi N" .
    then have "x < 2 * 2 powi N / 2 powi B"
      using pB by (simp add: pos_less_divide_eq)
    then show ?thesis by (simp only: up)
  qed
  have lower: "2 powi (e0 - 1) < x"
  proof -
    have "2 powi N \<le> 2 * (x * of_int b)"
      using Nn xb by simp
    also have "\<dots> < 2 * (x * 2 powi B)"
      using bB x_pos by simp
    finally have "2 powi N < x * (2 * 2 powi B)"
      by (simp add: mult_ac)
    then have "2 powi N / (2 * 2 powi B) < x"
      using pB by (simp add: pos_divide_less_eq)
    then show ?thesis by (simp only: lo)
  qed
  obtain q0 d0 where s: "shift_ratio n b (- e0) = (q0, d0)"
    by (cases "shift_ratio n b (- e0)")
  from shift_ratio_value [OF b s]
  have d0: "0 < d0" and q0: "(of_int q0 :: rat) = x * 2 powi (- e0) * of_int d0"
    by (simp_all add: x_def)
  have test: "(d0 \<le> q0) = (2 powi e0 \<le> x)"
  proof -
    have "(d0 \<le> q0) = ((of_int d0 :: rat) \<le> of_int q0)"
      by simp
    also have "\<dots> = (1 * of_int d0 \<le> x * 2 powi (- e0) * of_int d0)"
      by (simp add: q0)
    also have "\<dots> = (1 \<le> x * 2 powi (- e0))"
      using d0 by (simp only: mult_le_cancel_right_pos of_int_0_less_iff)
    also have "\<dots> = (2 powi e0 \<le> x)"
      by (simp add: power_int_minus field_simps)
    finally show ?thesis .
  qed
  have "binary_exponent n b = (if d0 \<le> q0 then e0 else e0 - 1)"
    unfolding binary_exponent_def Let_def N_def [symmetric] B_def [symmetric]
      e0_def [symmetric] s by simp
  then have e: "binary_exponent n b = (if 2 powi e0 \<le> x then e0 else e0 - 1)"
    by (simp only: test)
  show "2 powi binary_exponent n b \<le> (of_int n / of_int b :: rat)"
    using lower by (auto simp: e x_def [symmetric])
  show "(of_int n / of_int b :: rat) < 2 powi (binary_exponent n b + 1)"
    using upper by (auto simp: e x_def [symmetric])
qed

lemma round_div_ge: "0 < d \<Longrightarrow> k * d \<le> q \<Longrightarrow> k \<le> round_div q d"
proof -
  assume d: "0 < d" and "k * d \<le> q"
  then have "k \<le> q div d"
    by (simp add: pos_imp_zdiv_pos_iff zdiv_mono1 [of "k * d" q d, simplified])
  then show ?thesis
    by (simp add: round_div_def Let_def)
qed

lemma round_div_le: "0 < d \<Longrightarrow> q \<le> k * d \<Longrightarrow> round_div q d \<le> k"
proof -
  assume d: "0 < d" and q: "q \<le> k * d"
  have f: "q div d \<le> k"
    using zdiv_mono1 [OF q d] d by simp
  show ?thesis
  proof (cases "q div d = k")
    case True
    have "q = d * (q div d) + q mod d" by simp
    with True q have "q mod d \<le> 0"
      by (simp add: mult.commute)
    moreover have "0 \<le> q mod d"
      using d by simp
    ultimately have "q mod d = 0" by simp
    with d True show ?thesis
      by (simp add: round_div_def Let_def)
  next
    case False
    with f have "q div d + 1 \<le> k" by simp
    then show ?thesis
      by (simp add: round_div_def Let_def)
  qed
qed


lemma shift_ratio_nonneg: "0 \<le> n \<Longrightarrow> 0 < b \<Longrightarrow> shift_ratio n b s = (q, d) \<Longrightarrow> 0 \<le> q"
  by (auto simp: shift_ratio_def split: if_splits)

lemma true_divide_pos:
  assumes a: "0 < a" and b: "0 < b"
  obtains e q d where "e = binary_exponent a b" "shift_ratio a b (52 - e) = (q, d)" "0 < d"
    "(of_int q :: rat) = of_int a / of_int b * 2 powi (52 - e) * of_int d"
    "true_divide a b = of_int (round_div q d) * 2 powi (e - 52)"
proof -
  define e where "e = binary_exponent a b"
  obtain q d where s: "shift_ratio a b (52 - e) = (q, d)"
    by (cases "shift_ratio a b (52 - e)")
  from shift_ratio_value [OF b s]
  have d: "0 < d" and q: "(of_int q :: rat) = of_int a / of_int b * 2 powi (52 - e) * of_int d"
    by simp_all
  have abs: "\<bar>a\<bar> = a" and sg: "sgn a = 1"
    using a by simp_all
  have "true_divide a b = of_int (round_div q d) * 2 powi (e - 52)"
    unfolding true_divide_def abs sg Let_def e_def [symmetric] s pow2_powi
    using a by simp
  with e_def s d q show ?thesis
    by (rule that)
qed

lemma true_divide_gt_one:
  assumes b: "0 < b" and small: "b \<le> 2 ^ 52"
  shows "(1 < true_divide a b) = (b < a)"
proof (cases "0 < a")
  case False
  show ?thesis
  proof (cases "a = 0")
    case True
    with b show ?thesis by (simp add: true_divide_def)
  next
    case neg: False
    with False have a: "a < 0" by simp
    define e where "e = binary_exponent \<bar>a\<bar> b"
    obtain q d where s: "shift_ratio \<bar>a\<bar> b (52 - e) = (q, d)"
      by (cases "shift_ratio \<bar>a\<bar> b (52 - e)")
    have d: "0 < d"
      using shift_ratio_value(1) [OF b s] .
    have "0 \<le> q"
      using shift_ratio_nonneg [OF _ b s] by simp
    then have "0 * d \<le> q" by simp
    then have m: "0 \<le> round_div q d"
      by (rule round_div_ge [OF d])
    have "true_divide a b = - (of_int (round_div q d) * 2 powi (e - 52))"
      unfolding true_divide_def Let_def e_def [symmetric] s pow2_powi
      using a by simp
    moreover have "(0 :: rat) \<le> of_int (round_div q d) * 2 powi (e - 52)"
      using m by simp
    ultimately have "true_divide a b \<le> 0" by simp
    with a b show ?thesis by simp
  qed
next
  case a: True
  define x :: rat where "x = of_int a / of_int b"
  obtain e q d where e: "e = binary_exponent a b" and s: "shift_ratio a b (52 - e) = (q, d)"
    and d: "0 < d" and q: "(of_int q :: rat) = x * 2 powi (52 - e) * of_int d"
    and r: "true_divide a b = of_int (round_div q d) * 2 powi (e - 52)"
    using true_divide_pos [OF a b] unfolding x_def by metis
  have lo: "2 powi e \<le> x" and hi: "x < 2 powi (e + 1)"
    using binary_exponent_bounds [OF a b] by (simp_all add: e x_def)
  have dr: "(0 :: rat) < of_int d"
    using d by simp
  show ?thesis
  proof (cases "b < a")
    case False
    then have x1: "x \<le> 1"
      using b by (simp add: x_def)
    have e0: "e \<le> 0"
    proof (rule ccontr)
      assume "\<not> e \<le> 0"
      then have "(2 :: rat) powi 0 < 2 powi e"
        by (intro power_int_strict_increasing) simp_all
      with lo x1 show False by simp
    qed
    define K :: int where "K = 2 ^ nat (52 - e)"
    have K: "(of_int K :: rat) = 2 powi (52 - e)"
      using e0 by (simp add: K_def power_int_def)
    have "(of_int q :: rat) \<le> 1 * (2 powi (52 - e) * of_int d)"
      unfolding q using x1 dr
      by (simp only: mult.assoc mult_le_cancel_right_pos zero_less_mult_iff
          zero_less_power_int zero_less_numeral) simp
    then have "(of_int q :: rat) \<le> of_int (K * d)"
      by (simp add: K)
    then have "q \<le> K * d"
      by (simp only: of_int_le_iff)
    then have "round_div q d \<le> K"
      by (rule round_div_le [OF d])
    then have "(of_int (round_div q d) :: rat) \<le> of_int K"
      by (simp only: of_int_le_iff)
    then have "true_divide a b \<le> 2 powi (52 - e) * 2 powi (e - 52)"
      unfolding r K by (simp add: mult_right_mono)
    also have "\<dots> = 1"
      by (simp flip: power_int_add)
    finally show ?thesis
      using False by simp
  next
    case True
    then have x1: "1 < x"
      using b by (simp add: x_def)
    have e0: "0 \<le> e"
    proof (rule ccontr)
      assume "\<not> 0 \<le> e"
      then have "(2 :: rat) powi (e + 1) \<le> 2 powi 0"
        by (intro power_int_increasing) simp_all
      with hi x1 show False by simp
    qed
    have "1 < true_divide a b"
    proof (cases "e = 0")
      case True
      have s0: "q = a * 2 ^ 52" "d = b"
        using s by (simp_all add: True shift_ratio_def)
      have "b + 1 \<le> a"
        using \<open>b < a\<close> by simp
      then have "(b + 1) * 2 ^ 52 \<le> a * 2 ^ 52"
        by simp
      moreover have "(2 ^ 52 + 1) * b \<le> (b + 1) * 2 ^ 52"
        using small by (simp add: algebra_simps)
      ultimately have "(2 ^ 52 + 1) * d \<le> q"
        by (simp add: s0)
      then have "2 ^ 52 + 1 \<le> round_div q d"
        by (rule round_div_ge [OF d])
      then have "(of_int (2 ^ 52 + 1) :: rat) \<le> of_int (round_div q d)"
        by (simp only: of_int_le_iff)
      then have "(2 ^ 52 + 1) * 2 powi (- 52) \<le> true_divide a b"
        unfolding r True by (simp add: mult_right_mono)
      moreover have "(1 :: rat) < (2 ^ 52 + 1) * 2 powi (- 52)"
        by (simp add: power_int_minus field_simps)
      ultimately show ?thesis by simp
    next
      case False
      with e0 have e1: "1 \<le> e" by simp
      have "2 powi e * (2 powi (52 - e) * of_int d) \<le> x * (2 powi (52 - e) * of_int d)"
        using lo dr by (intro mult_right_mono) simp_all
      then have "(2 :: rat) powi 52 * of_int d \<le> of_int q"
        unfolding q by (simp add: mult.assoc [symmetric] flip: power_int_add)
      then have "(of_int (2 ^ 52 * d) :: rat) \<le> of_int q"
        by simp
      then have "2 ^ 52 * d \<le> q"
        by (simp only: of_int_le_iff)
      then have "2 ^ 52 \<le> round_div q d"
        by (rule round_div_ge [OF d])
      then have "(of_int (2 ^ 52) :: rat) \<le> of_int (round_div q d)"
        by (simp only: of_int_le_iff)
      then have "(of_int (2 ^ 52) :: rat) * 2 powi (e - 52) \<le> true_divide a b"
        unfolding r by (intro mult_right_mono) simp_all
      moreover have "(2 :: rat) powi e = of_int (2 ^ 52) * 2 powi (e - 52)"
      proof -
        have "(2 :: rat) powi e = 2 powi (52 + (e - 52))" by simp
        also have "\<dots> = 2 powi 52 * 2 powi (e - 52)"
          by (rule power_int_add) simp
        finally show ?thesis by simp
      qed
      ultimately have "(2 :: rat) powi e \<le> true_divide a b"
        by (simp only:)
      moreover have "(2 :: rat) powi 1 \<le> 2 powi e"
        using e1 by (intro power_int_increasing) simp_all
      ultimately show ?thesis by simp
    qed
    with True show ?thesis by simp
  qed
qed

lemma total_seconds_gt_one: "(1 < total_seconds delta) = (1000000 < delta)"
  unfolding total_seconds_def by (rule true_divide_gt_one) simp_all

lemmas float_eval = total_seconds_def true_divide_def binary_exponent_def round_div_def
  shift_ratio_def pow2_def bit_length.simps Let_def

lemma total_seconds_5: "total_seconds 5000000 = 5"
  by (simp add: float_eval)

lemma total_seconds_half: "total_seconds 500000 = 1 / 2"
  by (simp add: float_eval)

lemma total_seconds_minus_60: "total_seconds (- 60000000) = - 60"
  by (simp add: float_eval)

lemma total_seconds_31: "total_seconds 31000000 = 31"
  by (simp add: float_eval)

lemma total_seconds_rounds: "total_seconds 315537897599999999 = 315537897600"
  by (simp add: float_eval)

section \<open>Claims about wait_until\<close>

lemma wait_until_naive:
  "tzinfo time = None \<Longrightarrow>
   wait_until time w =
     (Inr (),
      if total_seconds (naive_difference time (clock w (reads w))) > 1
      then w\<lparr>reads := Suc (reads w),
             sleeps := sleeps w @ [total_seconds (naive_difference time (clock w (reads w)))]\<rparr>
      else w\<lparr>reads := Suc (reads w)\<rparr>)"
  by (simp add: wait_until_def utcnow_def datetime_sub_def asyncio_sleep_def Let_def
      naive_difference_def toordinal_def)

lemma wait_until_aware:
  "tzinfo time = Some off \<Longrightarrow> wait_until time w = (Inl TypeError, w\<lparr>reads := Suc (reads w)\<rparr>)"
  by (simp add: wait_until_def utcnow_def datetime_sub_def)

lemma parse_rfc1123_attaches_utc:
  "parse_rfc1123 strptime time_str = Inr dt \<Longrightarrow> tzinfo dt = Some 0"
  by (auto simp: parse_rfc1123_def split: sum.splits)

lemma wait_until_after_parse_rfc1123:
  "parse_rfc1123 strptime time_str = Inr dt \<Longrightarrow> fst (wait_until dt w) = Inl TypeError"
  by (simp add: wait_until_aware [OF parse_rfc1123_attaches_utc])

lemma difference_5:
  "naive_difference
     \<lparr>year = 2021, month = 3, day = 5, hour = 14, minute = 30, second = 5,
        microsecond = 0, tzinfo = None\<rparr>
     \<lparr>year = 2021, month = 3, day = 5, hour = 14, minute = 30, second = 0,
        microsecond = 0, tzinfo = None\<rparr> = 5000000"
  by (simp add: naive_difference_def toordinal_def)

lemma difference_half:
  "naive_difference
     \<lparr>year = 2021, month = 3, day = 5, hour = 14, minute = 30, second = 0,
        microsecond = 500000, tzinfo = None\<rparr>
     \<lparr>year = 2021, month = 3, day = 5, hour = 14, minute = 30, second = 0,
        microsecond = 0, tzinfo = None\<rparr> = 500000"
  by (simp add: naive_difference_def toordinal_def)

lemma difference_past:
  "naive_difference
     \<lparr>year = 2021, month = 3, day = 5, hour = 14, minute = 29, second = 0,
        microsecond = 0, tzinfo = None\<rparr>
     \<lparr>year = 2021, month = 3, day = 5, hour = 14, minute = 30, second = 0,
        microsecond = 0, tzinfo = None\<rparr> = - 60000000"
  by (simp add: naive_difference_def toordinal_def)

lemma difference_widest:
  "naive_difference
     \<lparr>year = 9999, month = 12, day = 31, hour = 23, minute = 59, second = 59,
        microsecond = 999999, tzinfo = None\<rparr>
     \<lparr>year = 1, month = 1, day = 1, hour = 0, minute = 0, second = 0,
        microsecond = 0, tzinfo = None\<rparr> = 315537897599999999"
  by (simp add: naive_difference_def toordinal_def days_before_year_def days_before_month_def
      days_in_month_def is_leap_def upto.simps)

text \<open>
  Claim C6, as amended. For every naive target (one without tzinfo), \<open>wait_until\<close>
  reads the clock exactly once and raises nothing. With \<open>delay_seconds\<close> the float
  that \<open>total_seconds()\<close> returns for the target minus that reading, the double
  nearest to the delay: if \<open>delay_seconds\<close> is more than 1.0 it awaits one sleep of
  \<open>delay_seconds\<close> seconds, and otherwise (also for a target in the past) it awaits
  none. For a target that carries a tzinfo, the subtraction from the naive reading
  raises TypeError after the one clock reading, and nothing is awaited. The float is
  more than 1.0 exactly when the delay is more than a million microseconds.
\<close>

theorem wait_until_once:
  "(tzinfo time = None \<longrightarrow>
      fst (wait_until time w) = Inr () \<and>
      reads (snd (wait_until time w)) = Suc (reads w) \<and>
      clock (snd (wait_until time w)) = clock w \<and>
      (total_seconds (naive_difference time (clock w (reads w))) > 1 \<longrightarrow>
         sleeps (snd (wait_until time w)) =
           sleeps w @ [total_seconds (naive_difference time (clock w (reads w)))]) \<and>
      (total_seconds (naive_difference time (clock w (reads w))) \<le> 1 \<longrightarrow>
         sleeps (snd (wait_until time w)) = sleeps w)) \<and>
   (tzinfo time \<noteq> None \<longrightarrow>
      wait_until time w = (Inl TypeError, w\<lparr>reads := Suc (reads w)\<rparr>)) \<and>
   (1 < total_seconds delta) = (1000000 < delta)"
proof (intro conjI impI)
  assume "tzinfo time \<noteq> None"
  then obtain off where "tzinfo time = Some off" by blast
  then show "wait_until time w = (Inl TypeError, w\<lparr>reads := Suc (reads w)\<rparr>)"
    by (rule wait_until_aware)
next
  show "(1 < total_seconds delta) = (1000000 < delta)"
    by (rule total_seconds_gt_one)
qed (simp_all add: wait_until_naive)

theorem wait_until_once_witness:
  "wait_until
     \<lparr>year = 2021, month = 3, day = 5, hour = 14, minute = 30, second = 5,
        microsecond = 0, tzinfo = None\<rparr>
     \<lparr>clock = frozen_clock \<lparr>year = 2021, month = 3, day = 5, hour = 14, minute = 30,
        second = 0, microsecond = 0, tzinfo = None\<rparr>, reads = 0, sleeps = []\<rparr> =
     (Inr (),
      \<lparr>clock = frozen_clock \<lparr>year = 2021, month = 3, day = 5, hour = 14, minute = 30,
        second = 0, microsecond = 0, tzinfo = None\<rparr>, reads = 1, sleeps = [5]\<rparr>) \<and>
   wait_until
     \<lparr>year = 2021, month = 3, day = 5, hour = 14, minute = 30, second = 0,
        microsecond = 500000, tzinfo = None\<rparr>
     \<lparr>clock = frozen_clock \<lparr>year = 2021, month = 3, day = 5, hour = 14, minute = 30,
        second = 0, microsecond = 0, tzinfo = None\<rparr>, reads = 0, sleeps = []\<rparr> =
     (Inr (),
      \<lparr>clock = frozen_clock \<lparr>year = 2021, month = 3, day = 5, hour = 14, minute = 30,
        second = 0, microsecond = 0, tzinfo = None\<rparr>, reads = 1, sleeps = []\<rparr>) \<and>
   wait_until
     \<lparr>year = 2021, month = 3, day = 5, hour = 14, minute = 29, second = 0,
        microsecond = 0, tzinfo = None\<rparr>
     \<lparr>clock = frozen_clock \<lparr>year = 2021, month = 3, day = 5, hour = 14, minute = 30,
        second = 0, microsecond = 0, tzinfo = None\<rparr>, reads = 0, sleeps = []\<rparr> =
     (Inr (),
      \<lparr>clock = frozen_clock \<lparr>year = 2021, month = 3, day = 5, hour = 14, minute = 30,
        second = 0, microsecond = 0, tzinfo = None\<rparr>, reads = 1, sleeps = []\<rparr>) \<and>
   wait_until
     \<lparr>year = 9999, month = 12, day = 31, hour = 23, minute = 59, second = 59,
        microsecond = 999999, tzinfo = None\<rparr>
     \<lparr>clock = frozen_clock \<lparr>year = 1, month = 1, day = 1, hour = 0, minute = 0,
        second = 0, microsecond = 0, tzinfo = None\<rparr>, reads = 0, sleeps = []\<rparr> =
     (Inr (),
      \<lparr>clock = frozen_clock \<lparr>year = 1, month = 1, day = 1, hour = 0, minute = 0,
        second = 0, microsecond = 0, tzinfo = None\<rparr>, reads = 1,
        sleeps = [315537897600]\<rparr>) \<and>
   wait_until
     \<lparr>year = 2021, month = 3, day = 5, hour = 14, minute = 30, second = 5,
        microsecond = 0, tzinfo = Some 0\<rparr>
     \<lparr>clock = frozen_clock \<lparr>year = 2021, month = 3, day = 5, hour = 14, minute = 30,
        second = 0, microsecond = 0, tzinfo = None\<rparr>, reads = 0, sleeps = []\<rparr> =
     (Inl TypeError,
      \<lparr>clock = frozen_clock \<lparr>year = 2021, month = 3, day = 5, hour = 14, minute = 30,
        second = 0, microsecond = 0, tzinfo = None\<rparr>, reads = 1, sleeps = []\<rparr>)"
proof -
  let ?now = "\<lparr>year = 2021, month = 3, day = 5, hour = 14, minute = 30, second = 0,
      microsecond = 0, tzinfo = None\<rparr>"
  let ?w = "\<lparr>clock = frozen_clock ?now, reads = 0, sleeps = []\<rparr>"
  let ?first = "\<lparr>year = 1, month = 1, day = 1, hour = 0, minute = 0, second = 0,
      microsecond = 0, tzinfo = None\<rparr>"
  let ?w1 = "\<lparr>clock = frozen_clock ?first, reads = 0, sleeps = []\<rparr>"
  let ?t5 = "\<lparr>year = 2021, month = 3, day = 5, hour = 14, minute = 30, second = 5,
      microsecond = 0, tzinfo = None\<rparr>"
  let ?th = "\<lparr>year = 2021, month = 3, day = 5, hour = 14, minute = 30, second = 0,
      microsecond = 500000, tzinfo = None\<rparr>"
  let ?tp = "\<lparr>year = 2021, month = 3, day = 5, hour = 14, minute = 29, second = 0,
      microsecond = 0, tzinfo = None\<rparr>"
  let ?tl = "\<lparr>year = 9999, month = 12, day = 31, hour = 23, minute = 59, second = 59,
      microsecond = 999999, tzinfo = None\<rparr>"
  let ?ta = "\<lparr>year = 2021, month = 3, day = 5, hour = 14, minute = 30, second = 5,
      microsecond = 0, tzinfo = Some 0\<rparr>"
  have d5: "total_seconds (naive_difference ?t5 (clock ?w (reads ?w))) = 5"
    by (simp add: frozen_clock_def difference_5 total_seconds_5)
  have dh: "total_seconds (naive_difference ?th (clock ?w (reads ?w))) = 1 / 2"
    by (simp add: frozen_clock_def difference_half total_seconds_half)
  have dp: "total_seconds (naive_difference ?tp (clock ?w (reads ?w))) = - 60"
    by (simp add: frozen_clock_def difference_past total_seconds_minus_60)
  have dl: "total_seconds (naive_difference ?tl (clock ?w1 (reads ?w1))) = 315537897600"
    by (simp add: frozen_clock_def difference_widest total_seconds_rounds)
  have r5: "wait_until ?t5 ?w = (Inr (), ?w\<lparr>reads := 1, sleeps := [5]\<rparr>)"
    using wait_until_once [of ?t5 ?w 0, THEN conjunct1] unfolding d5
    by (cases "wait_until ?t5 ?w") simp
  have rh: "wait_until ?th ?w = (Inr (), ?w\<lparr>reads := 1\<rparr>)"
    using wait_until_once [of ?th ?w 0, THEN conjunct1] unfolding dh
    by (cases "wait_until ?th ?w") simp
  have rp: "wait_until ?tp ?w = (Inr (), ?w\<lparr>reads := 1\<rparr>)"
    using wait_until_once [of ?tp ?w 0, THEN conjunct1] unfolding dp
    by (cases "wait_until ?tp ?w") simp
  have rl: "wait_until ?tl ?w1 = (Inr (), ?w1\<lparr>reads := 1, sleeps := [315537897600]\<rparr>)"
    using wait_until_once [of ?tl ?w1 0, THEN conjunct1] unfolding dl
    by (cases "wait_until ?tl ?w1") simp
  have ra: "wait_until ?ta ?w = (Inl TypeError, ?w\<lparr>reads := 1\<rparr>)"
    using wait_until_once [of ?ta ?w 0, THEN conjunct2, THEN conjunct1] by simp
  show ?thesis
    unfolding r5 rh rp rl ra by simp
qed

text \<open>
  The claim as stated, for every target timestamp, fails on a timezone-aware one such
  as \<open>parse_rfc1123\<close> returns: the target lies 31 seconds after the clock reading, yet
  the call raises TypeError and awaits no sleep.
\<close>

theorem wait_until_aware_counterexample:
  "fst (wait_until
     \<lparr>year = 1994, month = 11, day = 15, hour = 8, minute = 12, second = 31,
        microsecond = 0, tzinfo = Some 0\<rparr>
     \<lparr>clock = frozen_clock \<lparr>year = 1994, month = 11, day = 15, hour = 8, minute = 12,
        second = 0, microsecond = 0, tzinfo = None\<rparr>, reads = 0, sleeps = []\<rparr>) =
     Inl TypeError \<and>
   sleeps (snd (wait_until
     \<lparr>year = 1994, month = 11, day = 15, hour = 8, minute = 12, second = 31,
        microsecond = 0, tzinfo = Some 0\<rparr>
     \<lparr>clock = frozen_clock \<lparr>year = 1994, month = 11, day = 15, hour = 8, minute = 12,
        second = 0, microsecond = 0, tzinfo = None\<rparr>, reads = 0, sleeps = []\<rparr>)) = [] \<and>
   total_seconds (naive_difference
     \<lparr>year = 1994, month = 11, day = 15, hour = 8, minute = 12, second = 31,
        microsecond = 0, tzinfo = Some 0\<rparr>
     \<lparr>year = 1994, month = 11, day = 15, hour = 8, minute = 12,
        second = 0, microsecond = 0, tzinfo = None\<rparr>) = 31"
proof -
  have "naive_difference
     \<lparr>year = 1994, month = 11, day = 15, hour = 8, minute = 12, second = 31,
        microsecond = 0, tzinfo = Some 0\<rparr>
     \<lparr>year = 1994, month = 11, day = 15, hour = 8, minute = 12,
        second = 0, microsecond = 0, tzinfo = None\<rparr> = 31000000"
    by (simp add: naive_difference_def toordinal_def)
  then show ?thesis
    by (simp add: wait_until_def utcnow_def datetime_sub_def total_seconds_31)
qed

section \<open>Claims about format_infraction\<close>

lemma strftime_infraction:
  "strftime dt INFRACTION_FORMAT =
     str_int (year dt) @ ''-'' @ zero_pad 2 (month dt) @ ''-'' @ zero_pad 2 (day dt) @
     '' '' @ zero_pad 2 (hour dt) @ '':'' @ zero_pad 2 (minute dt)"
  by (simp add: INFRACTION_FORMAT_def strftime_directive_def)

lemma days_in_month_le: "1 \<le> m \<Longrightarrow> m \<le> 12 \<Longrightarrow> days_in_month y m \<le> 31"
proof -
  assume "1 \<le> m" "m \<le> 12"
  then have "m = 1 \<or> m = 2 \<or> m = 3 \<or> m = 4 \<or> m = 5 \<or> m = 6 \<or> m = 7 \<or> m = 8 \<or>
      m = 9 \<or> m = 10 \<or> m = 11 \<or> m = 12"
    by arith
  then show ?thesis
    by (elim disjE) (simp_all add: days_in_month_def)
qed

lemma str_nat_length_ge: "10 ^ k \<le> n \<Longrightarrow> k < length (str_nat n)"
proof (induction k arbitrary: n)
  case 0
  obtain c cs where "str_nat n = c # cs"
    using str_nat_first by blast
  then show ?case by simp
next
  case (Suc k)
  have "(10 :: nat) \<le> 10 ^ Suc k" by simp
  with Suc.prems have large: "\<not> n < 10" by linarith
  from Suc.prems have "10 ^ k \<le> n div 10"
    by (simp add: less_eq_div_iff_mult_less_eq mult.commute)
  then have "k < length (str_nat (n div 10))"
    by (rule Suc.IH)
  then show ?case
    by (simp add: str_nat_large [OF large])
qed

lemma two_digits:
  assumes "0 \<le> i" "i < 100"
  shows "\<exists>a b. zero_pad 2 i = [a, b] \<and> is_digit a \<and> is_digit b"
proof -
  have "length (zero_pad 2 i) = 2"
    using assms by (intro zero_pad_length) simp_all
  then obtain a b where ab: "zero_pad 2 i = [a, b]"
    by (auto simp: eval_nat_numeral length_Suc_conv)
  from zero_pad_digits [OF assms(1), of 2] have "is_digit a \<and> is_digit b"
    by (simp add: ab)
  with ab show ?thesis by blast
qed

lemma four_digits:
  assumes "1000 \<le> y" "y \<le> 9999"
  shows "\<exists>a b c d. str_int y = [a, b, c, d] \<and> is_digit a \<and> is_digit b \<and> is_digit c \<and> is_digit d"
proof -
  from assms have s: "str_int y = str_nat (nat y)"
    by (simp add: str_int_def)
  have "10 ^ 3 \<le> nat y"
    using assms by simp
  then have "3 < length (str_nat (nat y))"
    by (rule str_nat_length_ge)
  moreover have "length (str_nat (nat y)) \<le> 4"
    using assms by (intro str_nat_length) simp_all
  ultimately have "length (str_nat (nat y)) = 4" by simp
  then obtain a b c d where abcd: "str_nat (nat y) = [a, b, c, d]"
    by (auto simp: eval_nat_numeral length_Suc_conv)
  from str_nat_digits [of "nat y"]
  have "is_digit a \<and> is_digit b \<and> is_digit c \<and> is_digit d"
    by (simp add: abcd)
  with abcd s show ?thesis by simp
qed

lemma infraction_pattern_rendered:
  assumes "datetime_in_range dt" "1000 \<le> year dt"
  shows "infraction_pattern (strftime dt INFRACTION_FORMAT)"
proof -
  from assms(1) have d31: "day dt \<le> 31"
    using days_in_month_le [of "month dt" "year dt"] by (simp add: datetime_in_range_def)
  obtain y1 y2 y3 y4 where y: "str_int (year dt) = [y1, y2, y3, y4]"
      "is_digit y1" "is_digit y2" "is_digit y3" "is_digit y4"
    using four_digits [of "year dt"] assms by (auto simp: datetime_in_range_def)
  obtain m1 m2 where m: "zero_pad 2 (month dt) = [m1, m2]" "is_digit m1" "is_digit m2"
    using two_digits [of "month dt"] assms(1) by (auto simp: datetime_in_range_def)
  obtain d1 d2 where d: "zero_pad 2 (day dt) = [d1, d2]" "is_digit d1" "is_digit d2"
    using two_digits [of "day dt"] assms(1) d31 by (auto simp: datetime_in_range_def)
  obtain h1 h2 where h: "zero_pad 2 (hour dt) = [h1, h2]" "is_digit h1" "is_digit h2"
    using two_digits [of "hour dt"] assms(1) by (auto simp: datetime_in_range_def)
  obtain n1 n2 where n: "zero_pad 2 (minute dt) = [n1, n2]" "is_digit n1" "is_digit n2"
    using two_digits [of "minute dt"] assms(1) by (auto simp: datetime_in_range_def)
  have "strftime dt INFRACTION_FORMAT =
      [y1, y2, y3, y4, CHR ''-'', m1, m2, CHR ''-'', d1, d2, CHR '' '', h1, h2, CHR '':'', n1, n2]"
    by (simp add: strftime_infraction y(1) m(1) d(1) h(1) n(1))
  then show ?thesis
    using y m d h n by (simp add: infraction_pattern_def)
qed

lemma example_utc_rendered:
  "strftime \<lparr>year = 2021, month = 3, day = 5, hour = 14, minute = 30, second = 0,
      microsecond = 0, tzinfo = tz\<rparr> INFRACTION_FORMAT = ''2021-03-05 14:30''"
  by (simp add: strftime_infraction zero_pad_def str_int_def str_nat.simps digit_char_def)

lemma format_infraction_rendering:
  "(isoparse timestamp = Inl e \<longrightarrow> format_infraction isoparse timestamp = Inl e) \<and>
   (format_infraction isoparse timestamp = Inl e \<longrightarrow> isoparse timestamp = Inl e) \<and>
   (isoparse timestamp = Inr dt \<longrightarrow>
      format_infraction isoparse timestamp =
        Inr (str_int (year dt) @ ''-'' @ zero_pad 2 (month dt) @ ''-'' @
             zero_pad 2 (day dt) @ '' '' @ zero_pad 2 (hour dt) @ '':'' @
             zero_pad 2 (minute dt))) \<and>
   (isoparse timestamp = Inr dt \<and> datetime_in_range dt \<and> 1000 \<le> year dt \<longrightarrow>
      (\<exists>s. format_infraction isoparse timestamp = Inr s \<and> infraction_pattern s)) \<and>
   (isoparse ''2021-03-05T14:30:00+00:00'' =
      Inr \<lparr>year = 2021, month = 3, day = 5, hour = 14, minute = 30, second = 0,
            microsecond = 0, tzinfo = Some 0\<rparr> \<longrightarrow>
      format_infraction isoparse ''2021-03-05T14:30:00+00:00'' = Inr ''2021-03-05 14:30'')"
proof -
  have err: "(isoparse timestamp = Inl e \<longrightarrow> format_infraction isoparse timestamp = Inl e) \<and>
      (format_infraction isoparse timestamp = Inl e \<longrightarrow> isoparse timestamp = Inl e)"
    by (simp add: format_infraction_def split: sum.splits)
  have ok: "isoparse timestamp = Inr dt \<longrightarrow>
      format_infraction isoparse timestamp =
        Inr (str_int (year dt) @ ''-'' @ zero_pad 2 (month dt) @ ''-'' @
             zero_pad 2 (day dt) @ '' '' @ zero_pad 2 (hour dt) @ '':'' @
             zero_pad 2 (minute dt))"
    by (simp add: format_infraction_def strftime_infraction)
  have pat: "isoparse timestamp = Inr dt \<and> datetime_in_range dt \<and> 1000 \<le> year dt \<longrightarrow>
      (\<exists>s. format_infraction isoparse timestamp = Inr s \<and> infraction_pattern s)"
    by (simp add: format_infraction_def infraction_pattern_rendered)
  have ex: "isoparse ''2021-03-05T14:30:00+00:00'' =
      Inr \<lparr>year = 2021, month = 3, day = 5, hour = 14, minute = 30, second = 0,
            microsecond = 0, tzinfo = Some 0\<rparr> \<longrightarrow>
      format_infraction isoparse ''2021-03-05T14:30:00+00:00'' = Inr ''2021-03-05 14:30''"
    by (simp add: format_infraction_def example_utc_rendered)
  show ?thesis
    by (intro conjI) (rule err [THEN conjunct1] err [THEN conjunct2] ok pat ex)+
qed

text \<open>
  Claim C7. The claim says that every text the parser reads is rendered in the fixed
  pattern YYYY-MM-DD HH:MM. The code breaks it for a year below 1000: for the text
  "0999-01-02T03:04:05", read as year 999, \<open>format_infraction\<close> returns
  "999-01-02 03:04", fifteen characters that are not in the pattern, where the claim
  asks for "0999-01-02 03:04". The rest of the claim holds and is the lemma above:
  the error raised is exactly the parser's, the result is the year, month, day, hour
  and minute read, and from year 1000 on it is in the pattern.
\<close>

theorem format_infraction_year_below_1000:
  "format_infraction iso_table ''0999-01-02T03:04:05'' = Inr ''999-01-02 03:04'' \<and>
   \<not> infraction_pattern ''999-01-02 03:04'' \<and>
   infraction_pattern ''0999-01-02 03:04''"
proof -
  have "iso_table ''0999-01-02T03:04:05'' =
      Inr \<lparr>year = 999, month = 1, day = 2, hour = 3, minute = 4, second = 5,
            microsecond = 0, tzinfo = None\<rparr>"
    by (simp add: iso_table_def)
  then have out: "format_infraction iso_table ''0999-01-02T03:04:05'' = Inr ''999-01-02 03:04''"
    by (simp add: format_infraction_def strftime_infraction zero_pad_def str_int_def
        str_nat.simps digit_char_def)
  have short: "\<not> infraction_pattern ''999-01-02 03:04''"
    by (simp add: infraction_pattern_def)
  have padded: "infraction_pattern ''0999-01-02 03:04''"
    by (simp add: infraction_pattern_def is_digit_def)
  from out short padded show ?thesis
    by (intro conjI)
qed

text \<open>
  Claim C9. \<open>format_infraction\<close> does not convert what the parser read to UTC: the
  result is the rendering of the datetime's own calendar and clock fields, the same
  whatever the offset attached to it. When the parser reads "2021-03-05T14:30:00+05:00"
  as 14:30 at offset +05:00, the result is "2021-03-05 14:30" and not
  "2021-03-05 09:30".
\<close>

theorem format_infraction_local_fields:
  "(isoparse timestamp = Inr dt \<longrightarrow>
      format_infraction isoparse timestamp =
        Inr (strftime (dt\<lparr>tzinfo := None\<rparr>) INFRACTION_FORMAT) \<and>
      format_infraction isoparse timestamp =
        Inr (str_int (year dt) @ ''-'' @ zero_pad 2 (month dt) @ ''-'' @
             zero_pad 2 (day dt) @ '' '' @ zero_pad 2 (hour dt) @ '':'' @
             zero_pad 2 (minute dt))) \<and>
   strftime (dt\<lparr>tzinfo := Some offset\<rparr>) INFRACTION_FORMAT =
     strftime (dt\<lparr>tzinfo := None\<rparr>) INFRACTION_FORMAT \<and>
   (isoparse ''2021-03-05T14:30:00+05:00'' =
      Inr \<lparr>year = 2021, month = 3, day = 5, hour = 14, minute = 30, second = 0,
            microsecond = 0, tzinfo = Some 18000\<rparr> \<longrightarrow>
      format_infraction isoparse ''2021-03-05T14:30:00+05:00'' = Inr ''2021-03-05 14:30'' \<and>
      format_infraction isoparse ''2021-03-05T14:30:00+05:00'' \<noteq> Inr ''2021-03-05 09:30'')"
proof -
  have frame: "strftime (dt\<lparr>tzinfo := Some offset\<rparr>) INFRACTION_FORMAT =
      strftime (dt\<lparr>tzinfo := None\<rparr>) INFRACTION_FORMAT"
    by (simp add: strftime_infraction)
  have ok: "isoparse timestamp = Inr dt \<longrightarrow>
      format_infraction isoparse timestamp =
        Inr (strftime (dt\<lparr>tzinfo := None\<rparr>) INFRACTION_FORMAT) \<and>
      format_infraction isoparse timestamp =
        Inr (str_int (year dt) @ ''-'' @ zero_pad 2 (month dt) @ ''-'' @
             zero_pad 2 (day dt) @ '' '' @ zero_pad 2 (hour dt) @ '':'' @
             zero_pad 2 (minute dt))"
    by (simp add: format_infraction_def strftime_infraction)
  have ex: "isoparse ''2021-03-05T14:30:00+05:00'' =
      Inr \<lparr>year = 2021, month = 3, day = 5, hour = 14, minute = 30, second = 0,
            microsecond = 0, tzinfo = Some 18000\<rparr> \<longrightarrow>
      format_infraction isoparse ''2021-03-05T14:30:00+05:00'' = Inr ''2021-03-05 14:30'' \<and>
      format_infraction isoparse ''2021-03-05T14:30:00+05:00'' \<noteq> Inr ''2021-03-05 09:30''"
    by (simp add: format_infraction_def example_utc_rendered)
  show ?thesis
    by (rule conjI [OF ok conjI [OF frame ex]])
qed

theorem format_infraction_local_fields_witness:
  "iso_table ''2021-03-05T14:30:00+05:00'' =
     Inr \<lparr>year = 2021, month = 3, day = 5, hour = 14, minute = 30, second = 0,
           microsecond = 0, tzinfo = Some 18000\<rparr> \<and>
   format_infraction iso_table ''2021-03-05T14:30:00+05:00'' = Inr ''2021-03-05 14:30'' \<and>
   format_infraction iso_table ''2021-03-05T14:30:00+05:00'' \<noteq> Inr ''2021-03-05 09:30''"
proof -
  have good: "iso_table ''2021-03-05T14:30:00+05:00'' =
     Inr \<lparr>year = 2021, month = 3, day = 5, hour = 14, minute = 30, second = 0,
           microsecond = 0, tzinfo = Some 18000\<rparr>"
    by (simp add: iso_table_def)
  have "format_infraction iso_table ''2021-03-05T14:30:00+05:00'' = Inr ''2021-03-05 14:30'' \<and>
      format_infraction iso_table ''2021-03-05T14:30:00+05:00'' \<noteq> Inr ''2021-03-05 09:30''"
    by (rule mp [OF format_infraction_local_fields
          [of iso_table "''2021-03-05T14:30:00+05:00''"
            "\<lparr>year = 2021, month = 3, day = 5, hour = 14, minute = 30, second = 0,
               microsecond = 0, tzinfo = Some 18000\<rparr>" 0,
           THEN conjunct2, THEN conjunct2] good])
  with good show ?thesis
    by (rule conjI)
qed

end
